theory Spec2Isabelle
  imports Main "HOL-Library.Sublist"
begin

section \<open>Template rendering (networking.py, render_string_or_list_with_tags)\<close>

text \<open>
  Python's \<^verbatim>\<open>str.replace(old, new)\<close>: the text is scanned from the left, and every
  occurrence of \<^verbatim>\<open>old\<close> that does not overlap an occurrence already replaced is
  replaced by \<^verbatim>\<open>new\<close>; the replacement text is not scanned again. With an empty
  \<^verbatim>\<open>old\<close>, Python inserts \<^verbatim>\<open>new\<close> before every character and at the end.
\<close>

function replace_scan :: "string \<Rightarrow> string \<Rightarrow> string \<Rightarrow> string" where
  "replace_scan old new [] = []"
| "replace_scan old new (c # cs) =
     (if old \<noteq> [] \<and> prefix old (c # cs)
      then new @ replace_scan old new (drop (length old) (c # cs))
      else c # replace_scan old new cs)"
  by pat_completeness auto
termination
  by (relation "measure (\<lambda>(old, new, s). length s)") (auto simp: neq_Nil_conv)

definition str_replace :: "string \<Rightarrow> string \<Rightarrow> string \<Rightarrow> string" where
  "str_replace s old new =
     (if old = [] then new @ concat (map (\<lambda>c. c # new) s) else replace_scan old new s)"

text \<open>The tag of a key: \<^verbatim>\<open>r"{{" + key + r"}}"\<close>.\<close>

definition tag :: "string \<Rightarrow> string" where
  "tag key = ''{{'' @ key @ ''}}''"

text \<open>
  A context is a Python dict, iterated by \<^verbatim>\<open>context.items()\<close> in insertion order: a list
  of (key, value) pairs. The values are arbitrary objects; \<open>str\<close> is Python's \<^verbatim>\<open>str()\<close>
  on them.
\<close>

type_synonym 'v tag_context = "(string \<times> 'v) list"

text \<open>The inner loop \<^verbatim>\<open>for key, value in context.items(): line = line.replace(...)\<close>.\<close>

fun render_line :: "('v \<Rightarrow> string) \<Rightarrow> string \<Rightarrow> 'v tag_context \<Rightarrow> string" where
  "render_line str line [] = line"
| "render_line str line ((key, val) # rest) =
     render_line str (str_replace line (tag key) (str val)) rest"

text \<open>The argument is a single string or a list of lines (\<^verbatim>\<open>isinstance(old_lines, str)\<close>).\<close>

datatype str_or_list = Str string | Lines "string list"

fun render_lines :: "('v \<Rightarrow> string) \<Rightarrow> string list \<Rightarrow> 'v tag_context \<Rightarrow> string list \<Rightarrow> string list" where
  "render_lines str [] context new_lines = new_lines"
| "render_lines str (line # old_lines) context new_lines =
     render_lines str old_lines context (new_lines @ [render_line str line context])"

fun render_string_or_list_with_tags ::
  "('v \<Rightarrow> string) \<Rightarrow> str_or_list \<Rightarrow> 'v tag_context \<Rightarrow> str_or_list" where
  "render_string_or_list_with_tags str (Str old_lines) context =
     Str (render_line str old_lines context)"
| "render_string_or_list_with_tags str (Lines old_lines) context =
     Lines (render_lines str old_lines context [])"

text \<open>Python's \<^verbatim>\<open>old in s\<close> for strings: \<open>old\<close> occurs in \<open>s\<close> as a contiguous piece.\<close>

fun occurs_in :: "string \<Rightarrow> string \<Rightarrow> bool" where
  "occurs_in old [] = (old = [])"
| "occurs_in old (c # cs) = (prefix old (c # cs) \<or> occurs_in old cs)"

text \<open>
  No tag of the context occurs in the input: in the string, or in any of the lines.
\<close>

fun tags_absent :: "'v tag_context \<Rightarrow> str_or_list \<Rightarrow> bool" where
  "tags_absent context (Str s) = (\<forall>(key, val) \<in> set context. \<not> occurs_in (tag key) s)"
| "tags_absent context (Lines ls) =
     (\<forall>line \<in> set ls. \<forall>(key, val) \<in> set context. \<not> occurs_in (tag key) line)"

text \<open>A key without brace characters.\<close>

definition brace_free :: "string \<Rightarrow> bool" where
  "brace_free key = (CHR ''{'' \<notin> set key \<and> CHR ''}'' \<notin> set key)"

text \<open>
  Simultaneous substitution, for comparison with the code: one scan of the text from the
  left; where the tag of a context entry begins, the first such entry's value is written
  and the scan goes on after the tag, so that a value is never searched for tags.
\<close>

fun first_tag_at :: "'v tag_context \<Rightarrow> string \<Rightarrow> (string \<times> 'v) option" where
  "first_tag_at [] s = None"
| "first_tag_at ((key, val) # rest) s =
     (if prefix (tag key) s then Some (key, val) else first_tag_at rest s)"

function simultaneous_render :: "('v \<Rightarrow> string) \<Rightarrow> 'v tag_context \<Rightarrow> string \<Rightarrow> string" where
  "simultaneous_render str context [] = []"
| "simultaneous_render str context (c # cs) =
     (case first_tag_at context (c # cs) of
        Some (key, val) \<Rightarrow>
          str val @ simultaneous_render str context (drop (length (tag key)) (c # cs))
      | None \<Rightarrow> c # simultaneous_render str context cs)"
  by pat_completeness auto
termination
  by (relation "measure (\<lambda>(str, context, s). length s)") (auto simp: tag_def)

section \<open>Port allocation (networking.py, get_first_available_port)\<close>

text \<open>
  The body of the \<^verbatim>\<open>try\<close> creates a socket, binds it to (localhost, port) and closes
  it. What the operating system does at the attempt for a port is given by the
  environment: \<open>Socket_OSError\<close> when \<^verbatim>\<open>socket.socket()\<close> raises \<^verbatim>\<open>OSError\<close>,
  \<open>Bind_OSError\<close> when \<^verbatim>\<open>s.bind\<close> (or \<^verbatim>\<open>s.close\<close>) raises \<^verbatim>\<open>OSError\<close>, and \<open>Binds\<close> when
  the three calls complete. The socket is closed again, so an attempt leaves the
  environment as it was.
\<close>

datatype attempt = Socket_OSError | Bind_OSError | Binds

text \<open>
  The two ways the function raises: the \<^verbatim>\<open>OSError\<close> of its last line, which carries the
  two numbers formatted into the message
  \<^verbatim>\<open>"All ports from {} to {} are in use. Please close a port."\<close>, and the
  \<^verbatim>\<open>OverflowError\<close> that \<^verbatim>\<open>s.bind\<close> raises for a port outside 0 to 65535 before it
  asks the operating system; \<^verbatim>\<open>except OSError\<close> does not catch it.
\<close>

datatype port_error = OSError_all_ports_in_use int int | OverflowError

text \<open>
  \<^verbatim>\<open>for port in range(initial, final)\<close>, as a loop over the running port.
\<close>

function scan_ports :: "(int \<Rightarrow> attempt) \<Rightarrow> int \<Rightarrow> int \<Rightarrow> int \<Rightarrow> port_error + int" where
  "scan_ports env initial port final =
     (if port < final
      then (if env port = Socket_OSError then scan_ports env initial (port + 1) final
            else if port < 0 \<or> 65535 < port then Inl OverflowError
            else if env port = Binds then Inr port
            else scan_ports env initial (port + 1) final)
      else Inl (OSError_all_ports_in_use initial final))"
  by pat_completeness auto
termination
  by (relation "measure (\<lambda>(env, initial, port, final). nat (final - port))") auto

declare scan_ports.simps [simp del]

definition get_first_available_port :: "(int \<Rightarrow> attempt) \<Rightarrow> int \<Rightarrow> int \<Rightarrow> port_error + int" where
  "get_first_available_port env initial final = scan_ports env initial initial final"

definition INITIAL_PORT_VALUE :: int where
  "INITIAL_PORT_VALUE = 7860"

definition TRY_NUM_PORTS :: int where
  "TRY_NUM_PORTS = 100"

section \<open>Path translation (networking.py, HTTPHandler.translate_path)\<close>

text \<open>
  The handler calls \<^verbatim>\<open>SimpleHTTPRequestHandler.translate_path\<close>, \<^verbatim>\<open>os.path.relpath\<close> and
  \<^verbatim>\<open>os.path.join\<close>. They are functions of the standard library, written out here as
  they are on POSIX (\<^verbatim>\<open>posixpath\<close>), on paths as strings. Symbolic links are not part of
  the model.
\<close>

text \<open>\<^verbatim>\<open>os.path.join(a, b)\<close>.\<close>

definition path_join :: "string \<Rightarrow> string \<Rightarrow> string" where
  "path_join a b =
     (if b \<noteq> [] \<and> hd b = CHR ''/'' then b
      else if a = [] \<or> last a = CHR ''/'' then a @ b
      else a @ ''/'' @ b)"

text \<open>\<^verbatim>\<open>s.split(sep)\<close> for a separator of one character.\<close>

fun split_on :: "char \<Rightarrow> string \<Rightarrow> string list" where
  "split_on sep [] = [[]]"
| "split_on sep (c # cs) =
     (if c = sep then [] # split_on sep cs
      else (case split_on sep cs of [] \<Rightarrow> [[c]] | w # ws \<Rightarrow> (c # w) # ws))"

text \<open>\<^verbatim>\<open>sep.join(words)\<close>.\<close>

fun join_with :: "string \<Rightarrow> string list \<Rightarrow> string" where
  "join_with sep [] = []"
| "join_with sep [w] = w"
| "join_with sep (w # ws) = w @ sep @ join_with sep ws"

text \<open>\<^verbatim>\<open>posixpath.normpath\<close>: the loop over the components, and the function.\<close>

fun normpath_loop :: "bool \<Rightarrow> string list \<Rightarrow> string list \<Rightarrow> string list" where
  "normpath_loop initial_slashes [] new_comps = new_comps"
| "normpath_loop initial_slashes (part # comps) new_comps =
     (if part = [] \<or> part = ''.'' then normpath_loop initial_slashes comps new_comps
      else if part \<noteq> ''..'' \<or> (\<not> initial_slashes \<and> new_comps = []) \<or>
              (new_comps \<noteq> [] \<and> last new_comps = ''..'')
           then normpath_loop initial_slashes comps (new_comps @ [part])
      else if new_comps \<noteq> [] then normpath_loop initial_slashes comps (butlast new_comps)
      else normpath_loop initial_slashes comps new_comps)"

definition normpath :: "string \<Rightarrow> string" where
  "normpath path =
     (if path = [] then ''.''
      else
        (let initial_slashes =
               (if prefix ''/'' path
                then (if prefix ''//'' path \<and> \<not> prefix ''///'' path then 2 else 1)
                else (0::nat));
             comps = normpath_loop (initial_slashes \<noteq> 0) (split_on CHR ''/'' path) [];
             path = replicate initial_slashes CHR ''/'' @ join_with ''/'' comps
         in if path = [] then ''.'' else path))"

text \<open>\<^verbatim>\<open>posixpath.abspath\<close>, with \<open>cwd\<close> for \<^verbatim>\<open>os.getcwd()\<close>.\<close>

definition abspath :: "string \<Rightarrow> string \<Rightarrow> string" where
  "abspath cwd path =
     normpath (if prefix ''/'' path then path else path_join cwd path)"

text \<open>\<^verbatim>\<open>os.path.commonprefix\<close> of two lists: their longest common prefix.\<close>

fun commonprefix :: "string list \<Rightarrow> string list \<Rightarrow> string list" where
  "commonprefix (x # xs) (y # ys) = (if x = y then x # commonprefix xs ys else [])"
| "commonprefix xs ys = []"

text \<open>
  The two exceptions of the translation: \<^verbatim>\<open>relpath\<close> raises \<^verbatim>\<open>ValueError\<close> on an empty
  path, and \<^verbatim>\<open>os.path.join\<close> raises \<^verbatim>\<open>TypeError\<close> on \<^verbatim>\<open>None\<close>.
\<close>

datatype path_error = ValueError | TypeError_path

text \<open>\<^verbatim>\<open>posixpath.relpath(path, start)\<close>.\<close>

definition relpath :: "string \<Rightarrow> string \<Rightarrow> string \<Rightarrow> path_error + string" where
  "relpath cwd path start =
     (if path = [] then Inl ValueError
      else
        (let start_list = filter (\<lambda>x. x \<noteq> []) (split_on CHR ''/'' (abspath cwd start));
             path_list = filter (\<lambda>x. x \<noteq> []) (split_on CHR ''/'' (abspath cwd path));
             i = length (commonprefix start_list path_list);
             rel_list = replicate (length start_list - i) ''..'' @ drop i path_list
         in if rel_list = [] then Inr ''.''
            else Inr (foldl path_join (hd rel_list) (tl rel_list))))"

text \<open>\<^verbatim>\<open>posixpath.dirname\<close>.\<close>

definition dirname :: "string \<Rightarrow> string" where
  "dirname p =
     (let head = rev (dropWhile (\<lambda>c. c \<noteq> CHR ''/'') (rev p))
      in if head \<noteq> [] \<and> head \<noteq> replicate (length head) CHR ''/''
         then rev (dropWhile (\<lambda>c. c = CHR ''/'') (rev head))
         else head)"

text \<open>
  \<^verbatim>\<open>SimpleHTTPRequestHandler.translate_path\<close> of the standard library, which the
  handler calls first: the query and the fragment are cut off, the path is unquoted and
  normalised, and its components that are simple names are joined onto the current
  directory. \<open>unquote\<close> is \<^verbatim>\<open>urllib.parse.unquote\<close>, \<open>isspace\<close> tells the characters that
  \<^verbatim>\<open>rstrip()\<close> removes, and \<open>cwd\<close> is \<^verbatim>\<open>os.getcwd()\<close>.
\<close>

definition base_translate_path ::
  "(string \<Rightarrow> string) \<Rightarrow> (char \<Rightarrow> bool) \<Rightarrow> string \<Rightarrow> string \<Rightarrow> string" where
  "base_translate_path unquote isspace cwd path =
     (let path = takeWhile (\<lambda>c. c \<noteq> CHR ''?'') path;
          path = takeWhile (\<lambda>c. c \<noteq> CHR ''#'') path;
          trailing_slash = suffix ''/'' (rev (dropWhile isspace (rev path)));
          path = unquote path;
          path = normpath path;
          words = split_on CHR ''/'' path;
          words = filter (\<lambda>w. w \<noteq> []) words;
          path = foldl (\<lambda>path word.
                   if dirname word \<noteq> [] \<or> word = ''.'' \<or> word = ''..'' then path
                   else path_join path word) cwd words
      in if trailing_slash then path @ ''/'' else path)"

text \<open>
  \<^verbatim>\<open>HTTPHandler.translate_path\<close>: the path of the base class, made relative to the current
  directory and joined onto \<^verbatim>\<open>self.server.base_path\<close>, which is the directory to serve
  (\<^verbatim>\<open>None\<close> by default).
\<close>

definition translate_path ::
  "(string \<Rightarrow> string) \<Rightarrow> (char \<Rightarrow> bool) \<Rightarrow> string \<Rightarrow> string option \<Rightarrow> string
     \<Rightarrow> path_error + string" where
  "translate_path unquote isspace cwd base_path path =
     (let path = base_translate_path unquote isspace cwd path
      in case relpath cwd path cwd of
           Inl e \<Rightarrow> Inl e
         | Inr relpath' \<Rightarrow>
             (case base_path of
                None \<Rightarrow> Inl TypeError_path
              | Some base \<Rightarrow> Inr (path_join base relpath')))"

text \<open>The non-empty components of a path.\<close>

definition components :: "string \<Rightarrow> string list" where
  "components p = filter (\<lambda>x. x \<noteq> []) (split_on CHR ''/'' p)"

text \<open>A simple name: not empty, without a slash, and neither \<open>.\<close> nor \<open>..\<close>.\<close>

definition simple_name :: "string \<Rightarrow> bool" where
  "simple_name w = (w \<noteq> [] \<and> CHR ''/'' \<notin> set w \<and> w \<noteq> ''.'' \<and> w \<noteq> ''..'')"

section \<open>Python values and library functions used by the server\<close>

text \<open>
  The values the handlers pass around: what \<^verbatim>\<open>json.loads\<close> returns and what the
  handlers build (\<^verbatim>\<open>None\<close>, booleans, integers, strings, lists, dicts with string keys,
  in insertion order), and opaque objects \<open>PObj\<close> for everything the handlers never look
  into (floats, arrays, images). A dict is the list of its entries; its keys are
  distinct.
\<close>

datatype 'o pyval =
    PNone
  | PBool bool
  | PInt int
  | PStr string
  | PList "'o pyval list"
  | PDict "(string \<times> 'o pyval) list"
  | PObj 'o

datatype py_error =
    KeyError string
  | TypeError
  | ValueError_read_length
  | JSONDecodeError
  | ImageDecodeError

text \<open>
  \<^verbatim>\<open>msg[key]\<close> with a string key: a dict gives the value or raises \<^verbatim>\<open>KeyError\<close>; every
  other value \<^verbatim>\<open>json.loads\<close> can return raises \<^verbatim>\<open>TypeError\<close>.
\<close>

fun getitem :: "'o pyval \<Rightarrow> string \<Rightarrow> py_error + 'o pyval" where
  "getitem (PDict items) key =
     (case map_of items key of None \<Rightarrow> Inl (KeyError key) | Some v \<Rightarrow> Inr v)"
| "getitem v key = Inl TypeError"

text \<open>\<^verbatim>\<open>str(n)\<close> for an integer: its decimal digits, with a minus sign when negative.\<close>

fun str_nat :: "nat \<Rightarrow> string" where
  "str_nat n =
     (if n < 10 then [''0123456789'' ! n]
      else str_nat (n div 10) @ [''0123456789'' ! (n mod 10)])"

declare str_nat.simps [simp del]

definition str_int :: "int \<Rightarrow> string" where
  "str_int i = (if i < 0 then ''-'' @ str_nat (nat (- i)) else str_nat (nat i))"

text \<open>\<^verbatim>\<open>range(start, stop, step)\<close> for a positive step.\<close>

function py_range :: "int \<Rightarrow> int \<Rightarrow> int \<Rightarrow> int list" where
  "py_range start stop step =
     (if 0 < step \<and> start < stop then start # py_range (start + step) stop step else [])"
  by pat_completeness auto
termination
  by (relation "measure (\<lambda>(start, stop, step). nat (stop - start))") auto

declare py_range.simps [simp del]

definition FLAGGING_DIRECTORY :: string where
  "FLAGGING_DIRECTORY = ''static/flagged/''"

definition FLAGGING_FILENAME :: string where
  "FLAGGING_FILENAME = ''data.txt''"

text \<open>
  The functions the handlers call outside this module. \<open>json_dumps\<close> is \<^verbatim>\<open>json.dumps\<close>
  (\<open>None\<close> when it raises \<^verbatim>\<open>TypeError\<close> on a value it cannot serialise), \<open>json_loads\<close> is
  \<^verbatim>\<open>json.loads\<close> (\<open>None\<close> when it raises), \<open>tolist\<close> is the \<^verbatim>\<open>tolist()\<close> of the
  saliency array, \<open>decode_base64_to_image\<close> is the function of \<^verbatim>\<open>preprocessing_utils\<close>
  (\<open>None\<close> when it raises), \<open>image_convert\<close>, \<open>image_resize\<close> and \<open>image_rotate\<close> are the
  methods of the image, \<open>brightness_enhance img i\<close> is
  \<^verbatim>\<open>ImageEnhance.Brightness(img).enhance(i/4)\<close>, and \<open>to_model_input img\<close> is
  \<^verbatim>\<open>np.expand_dims(np.array(img) / 127.5 - 1, axis=0)\<close>.
\<close>

record 'o pylib =
  json_dumps :: "'o pyval \<Rightarrow> string option"
  json_loads :: "string \<Rightarrow> 'o pyval option"
  tolist :: "'o pyval \<Rightarrow> 'o pyval"
  decode_base64_to_image :: "'o pyval \<Rightarrow> 'o pyval option"
  image_convert :: "'o pyval \<Rightarrow> string \<Rightarrow> 'o pyval"
  image_resize :: "'o pyval \<Rightarrow> nat \<times> nat \<Rightarrow> 'o pyval"
  image_rotate :: "'o pyval \<Rightarrow> int \<Rightarrow> 'o pyval"
  brightness_enhance :: "'o pyval \<Rightarrow> int \<Rightarrow> 'o pyval"
  to_model_input :: "'o pyval \<Rightarrow> 'o pyval"

section \<open>The prediction server (networking.py, serve_files_in_background)\<close>

text \<open>
  The injected interface. Its functions are the collaborators of the server: they are
  taken as functions of their arguments that return.
\<close>

record 'o input_interface =
  preprocess :: "'o pyval \<Rightarrow> 'o pyval"
  input_rebuild_flagged :: "string \<Rightarrow> 'o pyval \<Rightarrow> 'o pyval"
  save_to_file :: "string \<Rightarrow> 'o pyval \<Rightarrow> 'o pyval"

record 'o output_interface =
  postprocess :: "'o pyval \<Rightarrow> 'o pyval"
  output_rebuild_flagged :: "string \<Rightarrow> 'o pyval \<Rightarrow> 'o pyval"

record 'o interface =
  input_interface :: "'o input_interface"
  output_interface :: "'o output_interface"
  predict :: "'o pyval \<Rightarrow> 'o pyval"
  saliency :: "('o pyval \<Rightarrow> 'o pyval \<Rightarrow> 'o pyval \<Rightarrow> 'o pyval) option"
  model_obj :: "'o pyval"

text \<open>
  A request: its path, the value of \<^verbatim>\<open>int(self.headers["Content-Length"])\<close> (\<open>None\<close> when
  the header is missing, and \<^verbatim>\<open>int\<close> raises \<^verbatim>\<open>TypeError\<close>), and the bytes that
  \<^verbatim>\<open>self.rfile\<close> holds.
\<close>

record request =
  path :: string
  content_length :: "int option"
  rfile :: string

text \<open>What the handler sends to the client, in order.\<close>

datatype wire =
    Send_response nat
  | Send_header string string
  | End_headers
  | Write string
  | Send_error nat string

text \<open>
  The state the handlers act on: what has been sent on the connection, the files (path
  to content), the directories made, and the arguments \<^verbatim>\<open>interface.predict\<close> was called
  with, in order.
\<close>

record 'o server_state =
  wfile :: "wire list"
  files :: "string \<Rightarrow> string option"
  dirs :: "string set"
  predict_calls :: "'o pyval list"

definition set_headers :: "'o server_state \<Rightarrow> 'o server_state" where
  "set_headers st =
     st\<lparr>wfile := wfile st @
       [Send_response 200, Send_header ''Content-type'' ''application/json'', End_headers]\<rparr>"

definition wfile_write :: "string \<Rightarrow> 'o server_state \<Rightarrow> 'o server_state" where
  "wfile_write data st = st\<lparr>wfile := wfile st @ [Write data]\<rparr>"

definition send_error :: "nat \<Rightarrow> string \<Rightarrow> 'o server_state \<Rightarrow> 'o server_state" where
  "send_error code message st = st\<lparr>wfile := wfile st @ [Send_error code message]\<rparr>"

definition makedirs :: "string \<Rightarrow> 'o server_state \<Rightarrow> 'o server_state" where
  "makedirs dir st = st\<lparr>dirs := insert dir (dirs st)\<rparr>"

text \<open>
  \<^verbatim>\<open>open(name, 'a+')\<close> makes the file when it is missing and keeps its content
  otherwise; \<^verbatim>\<open>f.write(data)\<close> on it puts the data at the end.
\<close>

definition content :: "'o server_state \<Rightarrow> string \<Rightarrow> string" where
  "content st name = (case files st name of None \<Rightarrow> [] | Some c \<Rightarrow> c)"

definition open_append :: "string \<Rightarrow> 'o server_state \<Rightarrow> 'o server_state" where
  "open_append name st = st\<lparr>files := (files st)(name \<mapsto> content st name)\<rparr>"

definition file_write :: "string \<Rightarrow> string \<Rightarrow> 'o server_state \<Rightarrow> 'o server_state" where
  "file_write name data st = st\<lparr>files := (files st)(name \<mapsto> content st name @ data)\<rparr>"

definition call_predict ::
  "'o interface \<Rightarrow> 'o pyval \<Rightarrow> 'o server_state \<Rightarrow> 'o pyval \<times> 'o server_state" where
  "call_predict interface x st =
     (predict interface x, st\<lparr>predict_calls := predict_calls st @ [x]\<rparr>)"

text \<open>
  \<^verbatim>\<open>data_string = self.rfile.read(int(self.headers["Content-Length"]))\<close> and
  \<^verbatim>\<open>msg = json.loads(data_string)\<close>. The buffered reader reads up to the given number of
  bytes, reads to the end for the length -1, and raises \<^verbatim>\<open>ValueError\<close> for a length
  below -1.
\<close>

definition read_msg :: "'o pylib \<Rightarrow> request \<Rightarrow> py_error + 'o pyval" where
  "read_msg lib req =
     (case content_length req of
        None \<Rightarrow> Inl TypeError
      | Some n \<Rightarrow>
          (if n < - 1 then Inl ValueError_read_length
           else
             (let data_string = (if n = - 1 then rfile req else take (nat n) (rfile req))
              in case json_loads lib data_string of
                   None \<Rightarrow> Inl JSONDecodeError
                 | Some msg \<Rightarrow> Inr msg)))"

text \<open>\<^verbatim>\<open>flag_dir = os.path.join(directory_to_serve, FLAGGING_DIRECTORY)\<close>; the directory is
  \<^verbatim>\<open>None\<close> by default, and \<^verbatim>\<open>os.path.join\<close> raises on it.\<close>

definition get_flag_dir :: "string option \<Rightarrow> py_error + string" where
  "get_flag_dir directory_to_serve =
     (case directory_to_serve of
        None \<Rightarrow> Inl TypeError
      | Some dir \<Rightarrow> Inr (path_join dir FLAGGING_DIRECTORY))"

text \<open>
  \<^verbatim>\<open>with open(os.path.join(flag_dir, FLAGGING_FILENAME), 'a+') as f:
      f.write(json.dumps(output)); f.write("\n")\<close>
\<close>

definition write_flag_record ::
  "'o pylib \<Rightarrow> string \<Rightarrow> 'o pyval \<Rightarrow> 'o server_state \<Rightarrow> py_error option \<times> 'o server_state" where
  "write_flag_record lib flag_dir output st =
     (let name = path_join flag_dir FLAGGING_FILENAME;
          st1 = open_append name st
      in case json_dumps lib output of
           None \<Rightarrow> (Some TypeError, st1)
         | Some line \<Rightarrow> (None, file_write name [CHR 0x0A] (file_write name line st1)))"

subsection \<open>/api/predict/\<close>

definition predict_route ::
  "'o pylib \<Rightarrow> 'o interface \<Rightarrow> request \<Rightarrow> 'o server_state \<Rightarrow> py_error option \<times> 'o server_state" where
  "predict_route lib interface req st =
     (let st1 = set_headers st
      in case read_msg lib req of
           Inl e \<Rightarrow> (Some e, st1)
         | Inr msg \<Rightarrow>
             (case getitem msg ''data'' of
                Inl e \<Rightarrow> (Some e, st1)
              | Inr data \<Rightarrow>
                  (let processed_input = preprocess (input_interface interface) data;
                       (prediction, st2) = call_predict interface processed_input st1;
                       processed_output = postprocess (output_interface interface) prediction;
                       output = [(''action'', PStr ''output''), (''data'', processed_output)];
                       output =
                         (case saliency interface of
                            None \<Rightarrow> output
                          | Some f \<Rightarrow>
                              output @
                              [(''saliency'',
                                tolist lib (f (model_obj interface) processed_input prediction))])
                   in case json_dumps lib (PDict output) of
                        None \<Rightarrow> (Some TypeError, st2)
                      | Some body \<Rightarrow> (None, wfile_write body st2))))"

subsection \<open>/api/flag/\<close>

text \<open>
  The entries of the dict literal are evaluated in order: the two \<^verbatim>\<open>rebuild_flagged\<close>
  calls, then \<^verbatim>\<open>msg['data']['message']\<close>.
\<close>

definition flag_output :: "'o interface \<Rightarrow> string \<Rightarrow> 'o pyval \<Rightarrow> py_error + 'o pyval" where
  "flag_output interface flag_dir msg =
     (case getitem msg ''data'' of
        Inl e \<Rightarrow> Inl e
      | Inr data \<Rightarrow>
          (case getitem data ''message'' of
             Inl e \<Rightarrow> Inl e
           | Inr message \<Rightarrow>
               Inr (PDict
                 [(''input'', input_rebuild_flagged (input_interface interface) flag_dir msg),
                  (''output'', output_rebuild_flagged (output_interface interface) flag_dir msg),
                  (''message'', message)])))"

definition flag_route ::
  "'o pylib \<Rightarrow> 'o interface \<Rightarrow> string option \<Rightarrow> request \<Rightarrow> 'o server_state
     \<Rightarrow> py_error option \<times> 'o server_state" where
  "flag_route lib interface directory_to_serve req st =
     (let st1 = set_headers st
      in case read_msg lib req of
           Inl e \<Rightarrow> (Some e, st1)
         | Inr msg \<Rightarrow>
             (case get_flag_dir directory_to_serve of
                Inl e \<Rightarrow> (Some e, st1)
              | Inr flag_dir \<Rightarrow>
                  (let st2 = makedirs flag_dir st1
                   in case flag_output interface flag_dir msg of
                        Inl e \<Rightarrow> (Some e, st2)
                      | Inr output \<Rightarrow> write_flag_record lib flag_dir output st2)))"

subsection \<open>/api/auto/rotation and /api/auto/lighting\<close>

text \<open>
  The body the two loops share, for the image \<open>img\<close> and the message of the pass: the
  prediction, the dict \<open>output\<close>, and the record written to the flag log.
\<close>

definition auto_step ::
  "'o pylib \<Rightarrow> 'o interface \<Rightarrow> string \<Rightarrow> 'o pyval \<Rightarrow> string \<Rightarrow> 'o server_state
     \<Rightarrow> py_error option \<times> 'o server_state" where
  "auto_step lib interface flag_dir img message st =
     (let img_array = to_model_input lib img;
          (prediction, st1) = call_predict interface img_array st;
          processed_output = postprocess (output_interface interface) prediction;
          output = PDict
            [(''input'', save_to_file (input_interface interface) flag_dir img),
             (''output'', output_rebuild_flagged (output_interface interface) flag_dir
                (PDict [(''data'', PDict [(''output'', processed_output)])])),
             (''message'', PStr message)]
      in write_flag_record lib flag_dir output st1)"

definition rotation_message :: "int \<Rightarrow> string" where
  "rotation_message deg = ''rotation by '' @ str_int deg @ '' degrees''"

definition lighting_message :: "int \<Rightarrow> string" where
  "lighting_message i = ''brighting adjustment by a factor of '' @ str_int i"

text \<open>\<^verbatim>\<open>for deg in range(-180, 180+45, 45)\<close>; an exception ends the loop.\<close>

fun rotation_loop ::
  "'o pylib \<Rightarrow> 'o interface \<Rightarrow> string \<Rightarrow> 'o pyval \<Rightarrow> int list \<Rightarrow> 'o server_state
     \<Rightarrow> py_error option \<times> 'o server_state" where
  "rotation_loop lib interface flag_dir img_orig [] st = (None, st)"
| "rotation_loop lib interface flag_dir img_orig (deg # degs) st =
     (case auto_step lib interface flag_dir (image_rotate lib img_orig deg)
             (rotation_message deg) st of
        (Some e, st1) \<Rightarrow> (Some e, st1)
      | (None, st1) \<Rightarrow> rotation_loop lib interface flag_dir img_orig degs st1)"

text \<open>\<^verbatim>\<open>for i in range(9)\<close>.\<close>

fun lighting_loop ::
  "'o pylib \<Rightarrow> 'o interface \<Rightarrow> string \<Rightarrow> 'o pyval \<Rightarrow> int list \<Rightarrow> 'o server_state
     \<Rightarrow> py_error option \<times> 'o server_state" where
  "lighting_loop lib interface flag_dir img_orig [] st = (None, st)"
| "lighting_loop lib interface flag_dir img_orig (i # is) st =
     (case auto_step lib interface flag_dir (brightness_enhance lib img_orig i)
             (lighting_message i) st of
        (Some e, st1) \<Rightarrow> (Some e, st1)
      | (None, st1) \<Rightarrow> lighting_loop lib interface flag_dir img_orig is st1)"

definition rotation_route ::
  "'o pylib \<Rightarrow> 'o interface \<Rightarrow> string option \<Rightarrow> request \<Rightarrow> 'o server_state
     \<Rightarrow> py_error option \<times> 'o server_state" where
  "rotation_route lib interface directory_to_serve req st =
     (let st1 = set_headers st
      in case read_msg lib req of
           Inl e \<Rightarrow> (Some e, st1)
         | Inr msg \<Rightarrow>
             (case getitem msg ''data'' of
                Inl e \<Rightarrow> (Some e, st1)
              | Inr data \<Rightarrow>
                  (case decode_base64_to_image lib data of
                     None \<Rightarrow> (Some ImageDecodeError, st1)
                   | Some img_orig \<Rightarrow>
                       (let img_orig = image_convert lib img_orig ''RGB'';
                            img_orig = image_resize lib img_orig (224, 224)
                        in case get_flag_dir directory_to_serve of
                             Inl e \<Rightarrow> (Some e, st1)
                           | Inr flag_dir \<Rightarrow>
                               (let st2 = makedirs flag_dir st1
                                in case rotation_loop lib interface flag_dir img_orig
                                          (py_range (- 180) (180 + 45) 45) st2 of
                                     (Some e, st3) \<Rightarrow> (Some e, st3)
                                   | (None, st3) \<Rightarrow>
                                       (case json_dumps lib (PDict []) of
                                          None \<Rightarrow> (Some TypeError, st3)
                                        | Some body \<Rightarrow> (None, wfile_write body st3)))))))"

definition lighting_route ::
  "'o pylib \<Rightarrow> 'o interface \<Rightarrow> string option \<Rightarrow> request \<Rightarrow> 'o server_state
     \<Rightarrow> py_error option \<times> 'o server_state" where
  "lighting_route lib interface directory_to_serve req st =
     (let st1 = set_headers st
      in case read_msg lib req of
           Inl e \<Rightarrow> (Some e, st1)
         | Inr msg \<Rightarrow>
             (case getitem msg ''data'' of
                Inl e \<Rightarrow> (Some e, st1)
              | Inr data \<Rightarrow>
                  (case decode_base64_to_image lib data of
                     None \<Rightarrow> (Some ImageDecodeError, st1)
                   | Some img_orig \<Rightarrow>
                       (let img_orig = image_convert lib img_orig ''RGB'';
                            img_orig = image_resize lib img_orig (224, 224)
                        in case get_flag_dir directory_to_serve of
                             Inl e \<Rightarrow> (Some e, st1)
                           | Inr flag_dir \<Rightarrow>
                               (let st2 = makedirs flag_dir st1
                                in case lighting_loop lib interface flag_dir img_orig
                                          (py_range 0 9 1) st2 of
                                     (Some e, st3) \<Rightarrow> (Some e, st3)
                                   | (None, st3) \<Rightarrow>
                                       (case json_dumps lib (PDict []) of
                                          None \<Rightarrow> (Some TypeError, st3)
                                        | Some body \<Rightarrow> (None, wfile_write body st3)))))))"

subsection \<open>do_POST\<close>

definition do_POST ::
  "'o pylib \<Rightarrow> 'o interface \<Rightarrow> string option \<Rightarrow> request \<Rightarrow> 'o server_state
     \<Rightarrow> py_error option \<times> 'o server_state" where
  "do_POST lib interface directory_to_serve req st =
     (if path req = ''/api/predict/'' then predict_route lib interface req st
      else if path req = ''/api/flag/'' then flag_route lib interface directory_to_serve req st
      else if path req = ''/api/auto/rotation'' then
        rotation_route lib interface directory_to_serve req st
      else if path req = ''/api/auto/lighting'' then
        lighting_route lib interface directory_to_serve req st
      else (None, send_error 404 (''Path not found: '' @ path req) st))"






subsection \<open>A small instance\<close>

text \<open>
  An instance of the library and of the interface, for running the handlers on concrete
  requests: every value is serialised as \<open>{}\<close>, and every body is read as a message
  whose \<^verbatim>\<open>data\<close> holds the body as its \<^verbatim>\<open>message\<close>.
\<close>

definition example_lib :: "unit pylib" where
  "example_lib =
     \<lparr>json_dumps = (\<lambda>v. Some ''{}''),
      json_loads = (\<lambda>s. Some (PDict [(''data'', PDict [(''message'', PStr s)])])),
      tolist = (\<lambda>v. v),
      decode_base64_to_image = (\<lambda>v. Some v),
      image_convert = (\<lambda>img mode. img),
      image_resize = (\<lambda>img size. img),
      image_rotate = (\<lambda>img deg. PList [img, PInt deg]),
      brightness_enhance = (\<lambda>img i. PList [img, PInt i]),
      to_model_input = (\<lambda>img. img)\<rparr>"

definition example_interface :: "unit interface" where
  "example_interface =
     \<lparr>input_interface =
        \<lparr>preprocess = (\<lambda>v. v),
         input_rebuild_flagged = (\<lambda>dir msg. PStr dir),
         save_to_file = (\<lambda>dir img. PStr dir)\<rparr>,
      output_interface =
        \<lparr>postprocess = (\<lambda>v. PList [v]),
         output_rebuild_flagged = (\<lambda>dir msg. PStr dir)\<rparr>,
      predict = (\<lambda>v. PList [v, v]),
      saliency = None,
      model_obj = PNone\<rparr>"

definition example_state :: "unit server_state" where
  "example_state = \<lparr>wfile = [], files = Map.empty, dirs = {}, predict_calls = []\<rparr>"

definition example_request :: "string \<Rightarrow> string \<Rightarrow> request" where
  "example_request p data = \<lparr>path = p, content_length = Some (int (length data)), rfile = data\<rparr>"

section \<open>Tunnel setup (networking.py, url_request and setup_tunnel)\<close>

text \<open>
  The response of the broker, as far as the code reads it: \<^verbatim>\<open>response.code\<close> and what
  \<^verbatim>\<open>response.read()\<close> returns. A response object is true as a condition.
\<close>

record http_response =
  resp_code :: int
  resp_read :: string

datatype tunnel_error = RuntimeError string

definition GRADIO_API_SERVER :: string where
  "GRADIO_API_SERVER = ''https://api.gradio.app/v1/tunnel-request''"

definition LOCALHOST_NAME :: string where
  "LOCALHOST_NAME = ''localhost''"

text \<open>
  \<open>urlopen url headers timeout\<close> stands for building the request with these headers and
  \<^verbatim>\<open>urllib.request.urlopen(req, timeout=timeout)\<close>: it returns the response, or raises an
  exception \<open>e\<close>, given by \<^verbatim>\<open>str(e)\<close> (a network error, a timeout, or the error that
  \<^verbatim>\<open>urlopen\<close> raises itself for a status outside 200 to 299).
\<close>

type_synonym urlopen = "string \<Rightarrow> (string \<times> string) list \<Rightarrow> nat \<Rightarrow> string + http_response"

definition url_request :: "urlopen \<Rightarrow> string \<Rightarrow> tunnel_error + http_response" where
  "url_request urlopen url =
     (case urlopen url [(''content-type'', ''application/json'')] 10 of
        Inl e \<Rightarrow> Inl (RuntimeError e)
      | Inr res \<Rightarrow> Inr res)"

text \<open>
  \<open>read_payload response\<close> stands for
  \<^verbatim>\<open>json.loads(response.read().decode("utf-8"))[0]\<close> and \<open>create_tunnel\<close> for the function of
  \<^verbatim>\<open>gradio.tunneling\<close>; both return, or raise an exception given by its \<^verbatim>\<open>str\<close>. The
  result \<open>Inr None\<close> is the function ending without a \<^verbatim>\<open>return\<close>: Python's \<^verbatim>\<open>None\<close>.
\<close>

definition setup_tunnel ::
  "urlopen \<Rightarrow> (http_response \<Rightarrow> string + 'p) \<Rightarrow> ('p \<Rightarrow> string \<Rightarrow> int \<Rightarrow> string + 'u) \<Rightarrow> int
     \<Rightarrow> tunnel_error + 'u option" where
  "setup_tunnel urlopen read_payload create_tunnel local_server_port =
     (case url_request urlopen GRADIO_API_SERVER of
        Inl e \<Rightarrow> Inl e
      | Inr response \<Rightarrow>
          (if resp_code response = 200 then
             (case read_payload response of
                Inl e \<Rightarrow> Inl (RuntimeError e)
              | Inr payload \<Rightarrow>
                  (case create_tunnel payload LOCALHOST_NAME local_server_port of
                     Inl e \<Rightarrow> Inl (RuntimeError e)
                   | Inr url \<Rightarrow> Inr (Some url)))
           else Inr None))"

section \<open>Properties of the renderer\<close>

lemma occurs_in_iff: "occurs_in old s \<longleftrightarrow> (\<exists>a b. s = a @ old @ b)"
proof (induction s)
  case Nil
  then show ?case by auto
next
  case (Cons c cs)
  show ?case
  proof
    assume "occurs_in old (c # cs)"
    then consider "prefix old (c # cs)" | "occurs_in old cs" by auto
    then show "\<exists>a b. c # cs = a @ old @ b"
    proof cases
      case 1
      then obtain b where "c # cs = old @ b" by (auto simp: prefix_def)
      then have "c # cs = [] @ old @ b" by simp
      then show ?thesis by blast
    next
      case 2
      with Cons.IH obtain a b where "cs = a @ old @ b" by blast
      then have "c # cs = (c # a) @ old @ b" by simp
      then show ?thesis by blast
    qed
  next
    assume "\<exists>a b. c # cs = a @ old @ b"
    then obtain a b where ab: "c # cs = a @ old @ b" by blast
    show "occurs_in old (c # cs)"
    proof (cases a)
      case Nil
      with ab have "prefix old (c # cs)" by (simp add: prefix_def)
      then show ?thesis by simp
    next
      case (Cons x a')
      with ab have "cs = a' @ old @ b" by simp
      with Cons.IH have "occurs_in old cs" by blast
      then show ?thesis by simp
    qed
  qed
qed

lemma occurs_in_prefix: "prefix old s \<Longrightarrow> occurs_in old s"
  by (cases s) auto

lemma replace_scan_absent: "\<not> occurs_in old s \<Longrightarrow> replace_scan old new s = s"
  by (induction s) auto

lemma tag_not_Nil: "tag key \<noteq> []"
  by (simp add: tag_def)

lemma str_replace_absent: "\<not> occurs_in (tag key) s \<Longrightarrow> str_replace s (tag key) new = s"
  by (simp add: str_replace_def tag_not_Nil replace_scan_absent)

lemma render_line_absent:
  "\<forall>(key, val) \<in> set ctx. \<not> occurs_in (tag key) line \<Longrightarrow> render_line str line ctx = line"
  by (induction ctx) (auto simp: str_replace_absent)

lemma render_lines_map:
  "render_lines str old_lines ctx new_lines =
     new_lines @ map (\<lambda>line. render_line str line ctx) old_lines"
  by (induction old_lines arbitrary: new_lines) auto


lemma replace_scan_self:
  "old \<noteq> [] \<Longrightarrow> replace_scan old new (old @ b) = new @ replace_scan old new b"
  by (cases old) auto

text \<open>
  C9: when no tag of the context occurs in the input, rendering returns the input, and
  so does rendering the result again.
\<close>

theorem render_absent_tags_identity:
  "tags_absent ctx inp \<Longrightarrow>
     render_string_or_list_with_tags str inp ctx = inp \<and>
     render_string_or_list_with_tags str (render_string_or_list_with_tags str inp ctx) ctx = inp"
proof -
  assume a: "tags_absent ctx inp"
  have "render_string_or_list_with_tags str inp ctx = inp"
  proof (cases inp)
    case (Str s)
    with a show ?thesis by (simp add: render_line_absent)
  next
    case (Lines ls)
    with a have "\<forall>line \<in> set ls. render_line str line ctx = line"
      by (auto intro!: render_line_absent)
    then have "map (\<lambda>line. render_line str line ctx) ls = ls"
      by (simp add: map_idI)
    with Lines show ?thesis by (simp add: render_lines_map)
  qed
  then show ?thesis by simp
qed

theorem render_absent_tags_identity_witness:
  "render_string_or_list_with_tags id (Str ''Hello {{missing}}!'') [(''name'', ''X'')]
     = Str ''Hello {{missing}}!'' \<and>
   render_string_or_list_with_tags id
     (render_string_or_list_with_tags id (Lines [''a {{b}}'', ''c'']) [(''name'', ''X'')])
     [(''name'', ''X'')] = Lines [''a {{b}}'', ''c'']"
proof -
  have h1: "tags_absent [(''name'', ''X'')] (Str ''Hello {{missing}}!'')"
    by (simp add: tag_def)
  have h2: "tags_absent [(''name'', ''X'')] (Lines [''a {{b}}'', ''c''])"
    by (simp add: tag_def)
  from render_absent_tags_identity[OF h1, of id] render_absent_tags_identity[OF h2, of id]
  show ?thesis by simp
qed

lemma render_line_append:
  "render_line str s (c1 @ c2) = render_line str (render_line str s c1) c2"
  by (induction c1 arbitrary: s) auto

lemma render_append:
  "render_string_or_list_with_tags str inp (c1 @ c2) =
     render_string_or_list_with_tags str (render_string_or_list_with_tags str inp c1) c2"
  by (cases inp) (simp_all add: render_line_append render_lines_map)

text \<open>
  C10: the substitutions are applied one after the other, in the order of the context,
  to a string and to every line of a list: rendering with the entries \<open>c1\<close> followed by
  the entries \<open>c2\<close> is rendering with \<open>c1\<close> and then rendering the result with \<open>c2\<close>, and
  a list is rendered line by line as the string is. Rendering the tag of the first key
  gives the first value rendered with the second entry, so a tag inside the first value
  is replaced too. At the text \<open>{{a}}\<close> with a \<mapsto> \<open>{{b}}\<close>, b \<mapsto> X the result is X, where
  simultaneous substitution gives \<open>{{b}}\<close>, and with the two entries in the other order
  the result is \<open>{{b}}\<close>; the same holds for the lines of a list.
\<close>

theorem render_sequential_in_context_order:
  "render_string_or_list_with_tags str inp (c1 @ c2) =
     render_string_or_list_with_tags str (render_string_or_list_with_tags str inp c1) c2 \<and>
   render_string_or_list_with_tags str (Str s) ctx = Str (render_line str s ctx) \<and>
   render_string_or_list_with_tags str (Lines ls) ctx =
     Lines (map (\<lambda>line. render_line str line ctx) ls) \<and>
   render_line str s ((key, val) # ctx) =
     render_line str (str_replace s (tag key) (str val)) ctx \<and>
   render_string_or_list_with_tags str (Str (tag a)) [(a, va), (b, vb)]
     = Str (str_replace (str va) (tag b) (str vb)) \<and>
   render_string_or_list_with_tags str (Lines [tag a]) [(a, va), (b, vb)]
     = Lines [str_replace (str va) (tag b) (str vb)] \<and>
   render_string_or_list_with_tags id (Str ''{{a}}'') [(''a'', ''{{b}}''), (''b'', ''X'')]
     = Str ''X'' \<and>
   simultaneous_render id [(''a'', ''{{b}}''), (''b'', ''X'')] ''{{a}}'' = ''{{b}}'' \<and>
   render_string_or_list_with_tags id (Str ''{{a}}'') [(''b'', ''X''), (''a'', ''{{b}}'')]
     = Str ''{{b}}'' \<and>
   render_string_or_list_with_tags id (Lines [''{{a}}'', ''x{{b}}''])
       [(''a'', ''{{b}}''), (''b'', ''X'')]
     = Lines [''X'', ''xX''] \<and>
   map (simultaneous_render id [(''a'', ''{{b}}''), (''b'', ''X'')]) [''{{a}}'', ''x{{b}}'']
     = [''{{b}}'', ''xX''] \<and>
   render_string_or_list_with_tags id (Lines [''{{a}}'', ''x{{b}}''])
       [(''b'', ''X''), (''a'', ''{{b}}'')]
     = Lines [''{{b}}'', ''xX'']"
proof -
  have self: "str_replace (tag a) (tag a) (str va) = str va"
    using replace_scan_self[OF tag_not_Nil, of a "str va" "[]"]
    by (simp add: str_replace_def tag_not_Nil)
  have 0: "render_string_or_list_with_tags str (Str s) ctx = Str (render_line str s ctx)"
    by simp
  have l: "render_string_or_list_with_tags str (Lines ls) ctx =
     Lines (map (\<lambda>line. render_line str line ctx) ls)"
    by (simp add: render_lines_map)
  have step: "render_line str s ((key, val) # ctx) =
     render_line str (str_replace s (tag key) (str val)) ctx"
    by simp
  from self have 1: "render_string_or_list_with_tags str (Str (tag a)) [(a, va), (b, vb)]
     = Str (str_replace (str va) (tag b) (str vb))" by simp
  from self have one_line: "render_string_or_list_with_tags str (Lines [tag a]) [(a, va), (b, vb)]
     = Lines [str_replace (str va) (tag b) (str vb)]" by simp
  have 2: "render_string_or_list_with_tags id (Str ''{{a}}'') [(''a'', ''{{b}}''), (''b'', ''X'')]
     = Str ''X''" by (simp add: str_replace_def tag_def)
  have 3: "simultaneous_render id [(''a'', ''{{b}}''), (''b'', ''X'')] ''{{a}}'' = ''{{b}}''"
    by (simp add: tag_def)
  have 4: "render_string_or_list_with_tags id (Str ''{{a}}'') [(''b'', ''X''), (''a'', ''{{b}}'')]
     = Str ''{{b}}''" by (simp add: str_replace_def tag_def)
  have 5: "render_string_or_list_with_tags id (Lines [''{{a}}'', ''x{{b}}''])
       [(''a'', ''{{b}}''), (''b'', ''X'')]
     = Lines [''X'', ''xX'']" by (simp add: str_replace_def tag_def)
  have 6: "map (simultaneous_render id [(''a'', ''{{b}}''), (''b'', ''X'')]) [''{{a}}'', ''x{{b}}'']
     = [''{{b}}'', ''xX'']" by (simp add: tag_def)
  have 7: "render_string_or_list_with_tags id (Lines [''{{a}}'', ''x{{b}}''])
       [(''b'', ''X''), (''a'', ''{{b}}'')]
     = Lines [''{{b}}'', ''xX'']" by (simp add: str_replace_def tag_def)
  from render_append[of str inp c1 c2] 0 l step 1 one_line 2 3 4 5 6 7 show ?thesis by blast
qed

subsection \<open>Tags of brace-free keys\<close>

lemma tag_suffix_no_open:
  assumes bf: "brace_free k" and split: "tag k = u @ x" and u: "u \<noteq> []" and x: "x \<noteq> []"
  shows "x @ y \<noteq> CHR ''{'' # CHR ''{'' # t"
proof -
  from split have eq: "CHR ''{'' # CHR ''{'' # k @ ''}}'' = u @ x" by (simp add: tag_def)
  from u obtain c u' where uc: "u = c # u'" by (cases u) auto
  with eq have eq1: "CHR ''{'' # k @ ''}}'' = u' @ x" by auto
  show ?thesis
  proof (cases u')
    case Nil
    with eq1 have xe: "x = CHR ''{'' # k @ ''}}''" by simp
    show ?thesis
    proof (cases k)
      case Nil
      with xe show ?thesis by simp
    next
      case (Cons d k')
      with bf have "d \<noteq> CHR ''{''" by (auto simp: brace_free_def)
      with xe Cons show ?thesis by simp
    qed
  next
    case (Cons d u'')
    with eq1 have "k @ ''}}'' = u'' @ x" by simp
    with x have "hd x \<in> set (k @ ''}}'')"
      by (metis hd_in_set in_set_conv_decomp append_assoc Un_iff set_append)
    with bf have "hd x \<noteq> CHR ''{''" by (auto simp: brace_free_def)
    with x show ?thesis by (cases x) auto
  qed
qed

lemma tag_prefix_eq:
  assumes "brace_free k" "brace_free m" "prefix (tag k) (tag m @ b)"
  shows "k = m"
proof -
  from assms(3) obtain r where "tag m @ b = tag k @ r" by (auto simp: prefix_def)
  then have eq: "m @ CHR ''}'' # (CHR ''}'' # b) = k @ CHR ''}'' # (CHR ''}'' # r)" by (simp add: tag_def)
  have "takeWhile (\<lambda>c. c \<noteq> CHR ''}'') (m @ CHR ''}'' # (CHR ''}'' # b)) = m"
    using assms(2) by (intro takeWhile_tail[THEN trans]) (auto simp: brace_free_def takeWhile_eq_all_conv)
  moreover have "takeWhile (\<lambda>c. c \<noteq> CHR ''}'') (k @ CHR ''}'' # (CHR ''}'' # r)) = k"
    using assms(1) by (intro takeWhile_tail[THEN trans]) (auto simp: brace_free_def takeWhile_eq_all_conv)
  ultimately show ?thesis using eq by simp
qed


lemma prefix_tag_starts:
  "prefix (tag k) s \<Longrightarrow> \<exists>t. s = CHR ''{'' # CHR ''{'' # t"
  by (auto simp: prefix_def tag_def)

text \<open>A tag does not begin inside another tag.\<close>

lemma no_tag_inside:
  assumes "brace_free m" "tag m = u @ x" "u \<noteq> []" "x \<noteq> []"
  shows "\<not> prefix (tag k) (x @ y)"
  using prefix_tag_starts[of k "x @ y"] tag_suffix_no_open[OF assms] by blast

text \<open>A tag that begins before another tag ends before it.\<close>

lemma tag_ends_before:
  assumes bf: "brace_free k" and pre: "prefix (tag k) (a @ tag m @ b)" and a: "a \<noteq> []"
  shows "prefix (tag k) a"
proof (rule ccontr)
  assume n: "\<not> prefix (tag k) a"
  with pre obtain x where x: "tag k = a @ x" "prefix x (tag m @ b)"
    by (auto simp: prefix_append)
  with n have xn: "x \<noteq> []" by auto
  from x(2) obtain y where "tag m @ b = x @ y" by (auto simp: prefix_def)
  then have "x @ y = CHR ''{'' # CHR ''{'' # (m @ ''}}'' @ b)" by (simp add: tag_def)
  with tag_suffix_no_open[OF bf x(1) a xn] show False by blast
qed

lemma replace_scan_through:
  assumes bfm: "brace_free m" and bfk: "brace_free k" and ne: "k \<noteq> m"
  shows "tag m = u @ x \<Longrightarrow> replace_scan (tag k) new (x @ b) = x @ replace_scan (tag k) new b"
proof (induction x arbitrary: u)
  case Nil
  then show ?case by simp
next
  case (Cons c x)
  have np: "\<not> prefix (tag k) ((c # x) @ b)"
  proof (cases u)
    case Nil
    with Cons.prems have "tag m = c # x" by simp
    with tag_prefix_eq[OF bfk bfm, of b] ne show ?thesis by auto
  next
    case (Cons d u')
    then have "u \<noteq> []" by simp
    from no_tag_inside[OF bfm Cons.prems this] show ?thesis by simp
  qed
  from Cons.prems have "tag m = (u @ [c]) @ x" by simp
  from Cons.IH[OF this] np show ?case by simp
qed

lemma replace_scan_tag_append:
  assumes bfk: "brace_free k" and bfm: "brace_free m"
  shows "replace_scan (tag k) new (a @ tag m @ b) =
           replace_scan (tag k) new a @ (if k = m then new else tag m) @ replace_scan (tag k) new b"
proof (induction "tag k" new a rule: replace_scan.induct)
  case (1 new)
  show ?case
  proof (cases "k = m")
    case True
    then show ?thesis using replace_scan_self[OF tag_not_Nil, of m new b] by simp
  next
    case False
    from replace_scan_through[OF bfm bfk False, of "[]" "tag m" new b] False show ?thesis by simp
  qed
next
  case (2 new c cs)
  show ?case
  proof (cases "prefix (tag k) ((c # cs) @ tag m @ b)")
    case True
    from tag_ends_before[OF bfk True] have p: "prefix (tag k) (c # cs)" by simp
    then have len: "length (tag k) \<le> length (c # cs)" by (rule prefix_length_le)
    from p 2(1) tag_not_Nil[of k]
    have IH: "replace_scan (tag k) new (drop (length (tag k)) (c # cs) @ tag m @ b) =
           replace_scan (tag k) new (drop (length (tag k)) (c # cs)) @ (if k = m then new else tag m) @ replace_scan (tag k) new b"
      by blast
    have "\<And>xs ys :: string. length (tag k) \<le> length xs \<Longrightarrow>
            drop (length (tag k)) (xs @ ys) = drop (length (tag k)) xs @ ys"
      by simp
    from this[OF len] have d: "drop (length (tag k)) ((c # cs) @ tag m @ b) = drop (length (tag k)) (c # cs) @ tag m @ b" .
    have "replace_scan (tag k) new ((c # cs) @ tag m @ b) = new @ replace_scan (tag k) new (drop (length (tag k)) ((c # cs) @ tag m @ b))"
      using True tag_not_Nil[of k] by simp
    also have "\<dots> = new @ replace_scan (tag k) new (drop (length (tag k)) (c # cs)) @ (if k = m then new else tag m) @ replace_scan (tag k) new b"
      using IH d by simp
    also have "\<dots> = replace_scan (tag k) new (c # cs) @ (if k = m then new else tag m) @ replace_scan (tag k) new b"
      using p tag_not_Nil[of k] by simp
    finally show ?thesis .
  next
    case False
    have np: "\<not> prefix (tag k) (c # cs)"
    proof
      assume "prefix (tag k) (c # cs)"
      then have "prefix (tag k) ((c # cs) @ tag m @ b)" by (rule prefix_prefix)
      with False show False by blast
    qed
    with 2(2) have IH: "replace_scan (tag k) new (cs @ tag m @ b) =
           replace_scan (tag k) new cs @ (if k = m then new else tag m) @ replace_scan (tag k) new b"
      by blast
    from False np IH show ?thesis by simp
  qed
qed


lemma str_replace_tag_append:
  assumes "brace_free k" "brace_free m"
  shows "str_replace (a @ tag m @ b) (tag k) new =
           str_replace a (tag k) new @ (if k = m then new else tag m) @ str_replace b (tag k) new"
  using replace_scan_tag_append[OF assms] by (simp add: str_replace_def tag_not_Nil)

lemma render_line_fold:
  "render_line str s ctx = fold (\<lambda>(key, val) t. str_replace t (tag key) (str val)) ctx s"
  by (induction ctx arbitrary: s) auto

lemma render_line_verbatim:
  assumes "brace_free m"
  shows "\<forall>key \<in> set (map fst ctx). brace_free key \<Longrightarrow> m \<notin> set (map fst ctx) \<Longrightarrow>
     render_line str (a @ tag m @ b) ctx = render_line str a ctx @ tag m @ render_line str b ctx"
proof (induction ctx arbitrary: a b)
  case Nil
  then show ?case by simp
next
  case (Cons e ctx)
  obtain key val where e: "e = (key, val)" by (cases e)
  with Cons.prems have bf: "brace_free key" and ne: "key \<noteq> m" by auto
  from str_replace_tag_append[OF bf assms, of a b "str val"] ne
  have "str_replace (a @ tag m @ b) (tag key) (str val) =
          str_replace a (tag key) (str val) @ tag m @ str_replace b (tag key) (str val)"
    by simp
  moreover from Cons.prems have "\<forall>key \<in> set (map fst ctx). brace_free key" "m \<notin> set (map fst ctx)"
    by auto
  ultimately show ?case using Cons.IH e by simp
qed

text \<open>
  C2, for contexts whose keys contain no brace: the string is rendered by one
  \<^verbatim>\<open>str.replace\<close> per context entry, in the order of the context; one such pass
  replaces every occurrence of the tag of a brace-free key, the text on either side of
  an occurrence being treated on its own; a tag \<open>{{m}}\<close> whose brace-free key \<open>m\<close> is not
  in the context stays as it is, with the text before and after it rendered
  independently; and a list of lines is rendered line by line, each line as the single
  string would be, keeping the number and the order of the lines. The functions are
  total: no error arises.
\<close>

theorem render_brace_free_tags:
  assumes keys: "\<forall>key \<in> set (map fst ctx). brace_free key"
  shows
   "render_string_or_list_with_tags str (Str s) ctx
      = Str (fold (\<lambda>(key, val) t. str_replace t (tag key) (str val)) ctx s) \<and>
    (\<forall>key new pre post. brace_free key \<longrightarrow>
       str_replace (pre @ tag key @ post) (tag key) new
         = str_replace pre (tag key) new @ new @ str_replace post (tag key) new) \<and>
    (\<forall>m pre post. brace_free m \<and> m \<notin> set (map fst ctx) \<longrightarrow>
       (\<exists>pre' post'.
          render_string_or_list_with_tags str (Str pre) ctx = Str pre' \<and>
          render_string_or_list_with_tags str (Str post) ctx = Str post' \<and>
          render_string_or_list_with_tags str (Str (pre @ tag m @ post)) ctx
            = Str (pre' @ tag m @ post'))) \<and>
    (\<exists>new_lines.
       render_string_or_list_with_tags str (Lines ls) ctx = Lines new_lines \<and>
       length new_lines = length ls \<and>
       (\<forall>i < length ls.
          render_string_or_list_with_tags str (Str (ls ! i)) ctx = Str (new_lines ! i)))"
proof (intro conjI allI impI)
  show "render_string_or_list_with_tags str (Str s) ctx
      = Str (fold (\<lambda>(key, val) t. str_replace t (tag key) (str val)) ctx s)"
    by (simp add: render_line_fold)
next
  fix key new pre post
  assume "brace_free key"
  from str_replace_tag_append[OF this this, of pre post new]
  show "str_replace (pre @ tag key @ post) (tag key) new
         = str_replace pre (tag key) new @ new @ str_replace post (tag key) new"
    by simp
next
  fix m pre post
  assume m: "brace_free m \<and> m \<notin> set (map fst ctx)"
  then have "render_line str (pre @ tag m @ post) ctx
               = render_line str pre ctx @ tag m @ render_line str post ctx"
    using render_line_verbatim[of m ctx str pre post] keys by blast
  then show "\<exists>pre' post'.
          render_string_or_list_with_tags str (Str pre) ctx = Str pre' \<and>
          render_string_or_list_with_tags str (Str post) ctx = Str post' \<and>
          render_string_or_list_with_tags str (Str (pre @ tag m @ post)) ctx
            = Str (pre' @ tag m @ post')"
    by simp
next
  show "\<exists>new_lines.
       render_string_or_list_with_tags str (Lines ls) ctx = Lines new_lines \<and>
       length new_lines = length ls \<and>
       (\<forall>i < length ls.
          render_string_or_list_with_tags str (Str (ls ! i)) ctx = Str (new_lines ! i))"
    by (simp add: render_lines_map)
qed

theorem render_brace_free_tags_witness:
  "render_string_or_list_with_tags id (Str ''Hello {{name}}! {{missing}}'') [(''name'', ''X'')]
     = Str ''Hello X! {{missing}}'' \<and>
   render_string_or_list_with_tags id (Lines [''{{name}}'', ''b{{name}}'']) [(''name'', ''X'')]
     = Lines [''X'', ''bX'']"
proof -
  have h: "\<forall>key \<in> set (map fst [(''name'', ''X'')]). brace_free key"
    by (simp add: brace_free_def)
  have m: "brace_free ''missing'' \<and> ''missing'' \<notin> set (map fst [(''name'', ''X'')])"
    by (simp add: brace_free_def)
  have n: "brace_free ''name''" by (simp add: brace_free_def)
  note t = render_brace_free_tags[OF h, of id]
  from t[of "''Hello {{name}}! {{missing}}''"]
  have 1: "render_string_or_list_with_tags id (Str ''Hello {{name}}! {{missing}}'') [(''name'', ''X'')]
     = Str ''Hello X! {{missing}}''"
    by (simp add: str_replace_def tag_def)
  from t[of _ "[''{{name}}'', ''b{{name}}'']"]
  have 2: "render_string_or_list_with_tags id (Lines [''{{name}}'', ''b{{name}}'']) [(''name'', ''X'')]
     = Lines [''X'', ''bX'']"
    by (simp add: str_replace_def tag_def)
  from 1 2 show ?thesis by simp
qed

text \<open>
  C2 as stated, for every context: with the key \<open>missing}}{{other\<close> in the context, the
  tag \<open>{{missing}}\<close>, whose key is not in the context, does not stay in the text.
\<close>

theorem render_unknown_tag_counterexample:
  "''missing'' \<notin> set (map fst [(''missing}}{{other'', ''Z'')]) \<and>
   occurs_in (tag ''missing'') ''{{missing}}{{other}}'' \<and>
   render_string_or_list_with_tags id (Str ''{{missing}}{{other}}'') [(''missing}}{{other'', ''Z'')]
     = Str ''Z'' \<and>
   \<not> occurs_in (tag ''missing'') ''Z''"
  by (simp add: str_replace_def tag_def)

section \<open>Properties of the port scan\<close>

text \<open>Within the port numbers, the scan from a running port.\<close>

lemma scan_ports_Inr:
  "0 \<le> port \<Longrightarrow> final \<le> 65536 \<Longrightarrow> scan_ports env initial port final = Inr p \<Longrightarrow>
     port \<le> p \<and> p < final \<and> env p = Binds \<and> (\<forall>q. port \<le> q \<and> q < p \<longrightarrow> env q \<noteq> Binds)"
proof (induction env initial port final rule: scan_ports.induct)
  case (1 env initial port final)
  note eq = scan_ports.simps[of env initial port final]
  show ?case
  proof (cases "port < final")
    case False
    with 1(5) eq show ?thesis by simp
  next
    case True
    with 1(4) have valid: "\<not> (port < 0 \<or> 65535 < port)" using 1(3) by arith
    show ?thesis
    proof (cases "env port = Binds")
      case True
      with \<open>port < final\<close> valid eq 1(5) have "p = port" by simp
      with True \<open>port < final\<close> show ?thesis by auto
    next
      case False
      with \<open>port < final\<close> valid eq 1(5)
      have next_port: "scan_ports env initial (port + 1) final = Inr p"
        by (simp split: if_splits)
      have "port + 1 \<le> p \<and> p < final \<and> env p = Binds \<and>
            (\<forall>q. port + 1 \<le> q \<and> q < p \<longrightarrow> env q \<noteq> Binds)"
      proof (cases "env port = Socket_OSError")
        case True
        from 1(1)[OF \<open>port < final\<close> True _ 1(4) next_port] 1(3) show ?thesis by simp
      next
        case nosock: False
        from 1(2)[OF \<open>port < final\<close> nosock valid False _ 1(4) next_port] 1(3)
        show ?thesis by simp
      qed
      then have IH: "port + 1 \<le> p" "p < final" "env p = Binds"
        "\<forall>q. port + 1 \<le> q \<and> q < p \<longrightarrow> env q \<noteq> Binds" by auto
      have "\<forall>q. port \<le> q \<and> q < p \<longrightarrow> env q \<noteq> Binds"
      proof (intro allI impI)
        fix q assume "port \<le> q \<and> q < p"
        then have "q = port \<or> (port + 1 \<le> q \<and> q < p)" by arith
        with False IH(4) show "env q \<noteq> Binds" by blast
      qed
      with IH show ?thesis by simp
    qed
  qed
qed

lemma scan_ports_Inl:
  "0 \<le> port \<Longrightarrow> final \<le> 65536 \<Longrightarrow>
     scan_ports env initial port final = Inl e \<longleftrightarrow>
       e = OSError_all_ports_in_use initial final \<and>
       (\<forall>q. port \<le> q \<and> q < final \<longrightarrow> env q \<noteq> Binds)"
proof (induction env initial port final rule: scan_ports.induct)
  case (1 env initial port final)
  note eq = scan_ports.simps[of env initial port final]
  show ?case
  proof (cases "port < final")
    case False
    with eq show ?thesis by auto
  next
    case True
    with 1(4) have valid: "\<not> (port < 0 \<or> 65535 < port)" using 1(3) by arith
    show ?thesis
    proof (cases "env port = Binds")
      case True
      with \<open>port < final\<close> valid eq have "scan_ports env initial port final = Inr port" by simp
      moreover from True \<open>port < final\<close>
      have "\<not> (\<forall>q. port \<le> q \<and> q < final \<longrightarrow> env q \<noteq> Binds)" by auto
      ultimately show ?thesis by simp
    next
      case False
      with \<open>port < final\<close> valid eq
      have step: "scan_ports env initial port final = scan_ports env initial (port + 1) final"
        by simp
      have IH: "scan_ports env initial (port + 1) final = Inl e \<longleftrightarrow>
              e = OSError_all_ports_in_use initial final \<and>
              (\<forall>q. port + 1 \<le> q \<and> q < final \<longrightarrow> env q \<noteq> Binds)"
      proof (cases "env port = Socket_OSError")
        case True
        from 1(1)[OF \<open>port < final\<close> True _ 1(4)] 1(3) show ?thesis by simp
      next
        case nosock: False
        from 1(2)[OF \<open>port < final\<close> nosock valid False _ 1(4)] 1(3) show ?thesis by simp
      qed
      have "(\<forall>q. port + 1 \<le> q \<and> q < final \<longrightarrow> env q \<noteq> Binds) \<longleftrightarrow>
            (\<forall>q. port \<le> q \<and> q < final \<longrightarrow> env q \<noteq> Binds)"
      proof
        assume h: "\<forall>q. port + 1 \<le> q \<and> q < final \<longrightarrow> env q \<noteq> Binds"
        show "\<forall>q. port \<le> q \<and> q < final \<longrightarrow> env q \<noteq> Binds"
        proof (intro allI impI)
          fix q assume "port \<le> q \<and> q < final"
          then have "q = port \<or> (port + 1 \<le> q \<and> q < final)" by arith
          with h False show "env q \<noteq> Binds" by blast
        qed
      next
        assume h: "\<forall>q. port \<le> q \<and> q < final \<longrightarrow> env q \<noteq> Binds"
        show "\<forall>q. port + 1 \<le> q \<and> q < final \<longrightarrow> env q \<noteq> Binds"
        proof (intro allI impI)
          fix q assume "port + 1 \<le> q \<and> q < final"
          then have "port \<le> q \<and> q < final" by arith
          with h show "env q \<noteq> Binds" by blast
        qed
      qed
      with step IH show ?thesis by simp
    qed
  qed
qed

lemma scan_ports_first:
  assumes range: "0 \<le> port" "final \<le> 65536"
    and p: "port \<le> p" "p < final" "env p = Binds"
    and below: "\<forall>q. port \<le> q \<and> q < p \<longrightarrow> env q \<noteq> Binds"
  shows "scan_ports env initial port final = Inr p"
proof (cases "scan_ports env initial port final")
  case (Inl e)
  with scan_ports_Inl[OF range, of env initial e] p show ?thesis by auto
next
  case (Inr r)
  from scan_ports_Inr[OF range Inr]
  have r: "port \<le> r" "r < final" "env r = Binds" "\<forall>q. port \<le> q \<and> q < r \<longrightarrow> env q \<noteq> Binds"
    by auto
  have "r = p"
  proof (rule ccontr)
    assume "r \<noteq> p"
    then consider "r < p" | "p < r" by arith
    then show False
    proof cases
      case 1
      with below r(1) r(3) show False by blast
    next
      case 2
      with r(4) p(1) p(3) show False by blast
    qed
  qed
  with Inr show ?thesis by simp
qed

text \<open>
  Outside the port numbers the scan leaves with the \<^verbatim>\<open>OverflowError\<close> of \<^verbatim>\<open>s.bind\<close>: with
  every port in use, the range from 65535 to 65540 does not end in the \<^verbatim>\<open>OSError\<close> of
  the last line.
\<close>

lemma get_first_available_port_overflow:
  "get_first_available_port (\<lambda>port. Bind_OSError) 65535 65540 = Inl OverflowError"
  by (simp add: get_first_available_port_def scan_ports.simps)

text \<open>
  C3, for a range of port numbers (from 0, up to 65536 exclusive): the scan returns a
  port exactly when that port is in the range, its bind succeeds and no attempt for a
  port of the range below it succeeds (the lowest free port); it raises the error that
  all ports are in use exactly when no attempt for a port of the range succeeds.
\<close>

theorem get_first_available_port_lowest_free:
  assumes "0 \<le> initial" and "final \<le> 65536"
  shows
  "(get_first_available_port env initial final = Inr port \<longleftrightarrow>
      initial \<le> port \<and> port < final \<and> env port = Binds \<and>
      (\<forall>q. initial \<le> q \<and> q < port \<longrightarrow> env q \<noteq> Binds)) \<and>
   (get_first_available_port env initial final = Inl e \<longleftrightarrow>
      e = OSError_all_ports_in_use initial final \<and>
      (\<forall>q. initial \<le> q \<and> q < final \<longrightarrow> env q \<noteq> Binds))"
proof (intro conjI)
  show "get_first_available_port env initial final = Inr port \<longleftrightarrow>
      initial \<le> port \<and> port < final \<and> env port = Binds \<and>
      (\<forall>q. initial \<le> q \<and> q < port \<longrightarrow> env q \<noteq> Binds)"
  proof
    assume "get_first_available_port env initial final = Inr port"
    then have "scan_ports env initial initial final = Inr port"
      by (simp add: get_first_available_port_def)
    from scan_ports_Inr[OF assms this]
    show "initial \<le> port \<and> port < final \<and> env port = Binds \<and>
      (\<forall>q. initial \<le> q \<and> q < port \<longrightarrow> env q \<noteq> Binds)" .
  next
    assume "initial \<le> port \<and> port < final \<and> env port = Binds \<and>
      (\<forall>q. initial \<le> q \<and> q < port \<longrightarrow> env q \<noteq> Binds)"
    then have "scan_ports env initial initial final = Inr port"
      using scan_ports_first[OF assms, of port env initial] by blast
    then show "get_first_available_port env initial final = Inr port"
      by (simp add: get_first_available_port_def)
  qed
  show "get_first_available_port env initial final = Inl e \<longleftrightarrow>
      e = OSError_all_ports_in_use initial final \<and>
      (\<forall>q. initial \<le> q \<and> q < final \<longrightarrow> env q \<noteq> Binds)"
    using scan_ports_Inl[OF assms, of env initial e]
    by (simp add: get_first_available_port_def)
qed

theorem get_first_available_port_lowest_free_witness:
  "get_first_available_port (\<lambda>p. if 7860 \<le> p \<and> p \<le> 7864 then Bind_OSError else Binds)
      INITIAL_PORT_VALUE (INITIAL_PORT_VALUE + TRY_NUM_PORTS) = Inr 7865 \<and>
   get_first_available_port (\<lambda>p. Bind_OSError)
      INITIAL_PORT_VALUE (INITIAL_PORT_VALUE + TRY_NUM_PORTS)
     = Inl (OSError_all_ports_in_use 7860 7960)"
proof -
  have r: "(0::int) \<le> 7860" "(7960::int) \<le> 65536" by simp_all
  have h: "\<forall>q::int. 7860 \<le> q \<and> q < 7865 \<longrightarrow>
             (if 7860 \<le> q \<and> q \<le> 7864 then Bind_OSError else Binds) \<noteq> Binds"
    by auto
  from get_first_available_port_lowest_free
          [OF r, of "\<lambda>p. if 7860 \<le> p \<and> p \<le> 7864 then Bind_OSError else Binds" 7865 undefined] h
  have 1: "get_first_available_port
             (\<lambda>p. if 7860 \<le> p \<and> p \<le> 7864 then Bind_OSError else Binds) 7860 7960 = Inr 7865"
    by simp
  from get_first_available_port_lowest_free
          [OF r, of "\<lambda>p. Bind_OSError" undefined "OSError_all_ports_in_use 7860 7960"]
  have 2: "get_first_available_port (\<lambda>p. Bind_OSError) 7860 7960
             = Inl (OSError_all_ports_in_use 7860 7960)"
    by simp
  from 1 2 show ?thesis by (simp add: INITIAL_PORT_VALUE_def TRY_NUM_PORTS_def)
qed

section \<open>Properties of the prediction server\<close>


lemma py_range_lighting: "py_range 0 9 1 = [0, 1, 2, 3, 4, 5, 6, 7, 8]"
  by (simp add: py_range.simps)



subsection \<open>Effects of the primitives\<close>

lemma content_file_write [simp]:
  "content (file_write name data st) name' =
     (if name' = name then content st name @ data else content st name')"
  by (simp add: content_def file_write_def)

lemma content_open_append [simp]: "content (open_append name st) name' = content st name'"
  by (simp add: content_def open_append_def)

lemma content_other [simp]:
  "content (set_headers st) name = content st name"
  "content (wfile_write body st) name = content st name"
  "content (send_error code message st) name = content st name"
  "content (makedirs dir st) name = content st name"
  by (simp_all add: content_def set_headers_def wfile_write_def send_error_def makedirs_def)

lemma wfile_simps [simp]:
  "wfile (file_write name data st) = wfile st"
  "wfile (open_append name st) = wfile st"
  "wfile (makedirs dir st) = wfile st"
  "wfile (wfile_write body st) = wfile st @ [Write body]"
  "wfile (set_headers st) = wfile st @
     [Send_response 200, Send_header ''Content-type'' ''application/json'', End_headers]"
  "wfile (send_error code message st) = wfile st @ [Send_error code message]"
  by (simp_all add: file_write_def open_append_def makedirs_def wfile_write_def set_headers_def
        send_error_def)

lemma predict_calls_simps [simp]:
  "predict_calls (file_write name data st) = predict_calls st"
  "predict_calls (open_append name st) = predict_calls st"
  "predict_calls (makedirs dir st) = predict_calls st"
  "predict_calls (wfile_write body st) = predict_calls st"
  "predict_calls (set_headers st) = predict_calls st"
  "predict_calls (send_error code message st) = predict_calls st"
  by (simp_all add: file_write_def open_append_def makedirs_def wfile_write_def set_headers_def
        send_error_def)

lemma files_simps [simp]:
  "files (makedirs dir st) = files st"
  "files (wfile_write body st) = files st"
  "files (set_headers st) = files st"
  "files (send_error code message st) = files st"
  "name' \<noteq> name \<Longrightarrow> files (file_write name data st) name' = files st name'"
  "name' \<noteq> name \<Longrightarrow> files (open_append name st) name' = files st name'"
  by (simp_all add: file_write_def open_append_def makedirs_def wfile_write_def set_headers_def
        send_error_def)

lemma dirs_simps [simp]:
  "dirs (file_write name data st) = dirs st"
  "dirs (open_append name st) = dirs st"
  "dirs (makedirs dir st) = insert dir (dirs st)"
  "dirs (wfile_write body st) = dirs st"
  "dirs (set_headers st) = dirs st"
  "dirs (send_error code message st) = dirs st"
  by (simp_all add: file_write_def open_append_def makedirs_def wfile_write_def set_headers_def
        send_error_def)

text \<open>
  A request whose Content-Length is below -1 cannot be read: the handler raises after the
  headers, and nothing is predicted or written.
\<close>

lemma read_msg_negative_length:
  "content_length req = Some n \<Longrightarrow> n < - 1 \<Longrightarrow> read_msg lib req = Inl ValueError_read_length"
  by (simp add: read_msg_def)

lemma do_POST_negative_length:
  assumes "content_length req = Some n" "n < - 1"
    and "path req \<in> {''/api/predict/'', ''/api/flag/'', ''/api/auto/rotation'', ''/api/auto/lighting''}"
  shows "do_POST lib interface directory_to_serve req st =
           (Some ValueError_read_length, set_headers st)"
  using assms
  by (auto simp: do_POST_def predict_route_def flag_route_def rotation_route_def
        lighting_route_def read_msg_negative_length Let_def)

text \<open>
  C6: a POST whose path is none of the four routes is answered with
  \<^verbatim>\<open>send_error(404, 'Path not found: ' + path)\<close>; nothing else is sent, no file and no
  directory changes, and \<^verbatim>\<open>interface.predict\<close> is not called.
\<close>

theorem unknown_path_not_found:
  assumes "path req \<notin> {''/api/predict/'', ''/api/flag/'', ''/api/auto/rotation'', ''/api/auto/lighting''}"
  shows "\<exists>st'. do_POST lib interface directory_to_serve req st = (None, st') \<and>
           wfile st' = wfile st @ [Send_error 404 (''Path not found: '' @ path req)] \<and>
           files st' = files st \<and> dirs st' = dirs st \<and> predict_calls st' = predict_calls st"
  using assms by (simp add: do_POST_def)

theorem unknown_path_not_found_witness:
  "\<exists>st'. do_POST example_lib example_interface None (example_request ''/api/unknown'' ''{}'')
            example_state = (None, st') \<and>
         wfile st' = [Send_error 404 ''Path not found: /api/unknown''] \<and>
         files st' = Map.empty \<and> dirs st' = {} \<and> predict_calls st' = []"
proof -
  have h: "path (example_request ''/api/unknown'' ''{}'') \<notin>
             {''/api/predict/'', ''/api/flag/'', ''/api/auto/rotation'', ''/api/auto/lighting''}"
    by (simp add: example_request_def)
  from unknown_path_not_found[OF h, of example_lib example_interface None example_state]
  show ?thesis by (simp add: example_request_def example_state_def)
qed



subsection \<open>The flag log\<close>













section \<open>Properties of the tunnel setup\<close>

text \<open>The request to the broker uses the timeout 10 only, and an exception of it is
  passed on as a \<^verbatim>\<open>RuntimeError\<close> with the same message.\<close>

lemma url_request_timeout:
  "urlopen url [(''content-type'', ''application/json'')] 10 =
     urlopen' url [(''content-type'', ''application/json'')] 10 \<Longrightarrow>
   url_request urlopen url = url_request urlopen' url"
  by (simp add: url_request_def)

lemma url_request_error:
  "urlopen url [(''content-type'', ''application/json'')] 10 = Inl e \<Longrightarrow>
   url_request urlopen url = Inl (RuntimeError e)"
  by (simp add: url_request_def)

lemma setup_tunnel_error:
  "urlopen GRADIO_API_SERVER [(''content-type'', ''application/json'')] 10 = Inl e \<Longrightarrow>
   setup_tunnel urlopen read_payload create_tunnel port = Inl (RuntimeError e)"
  by (simp add: setup_tunnel_def url_request_def)

text \<open>
  C7: when the broker answers with the status 204, which \<^verbatim>\<open>urlopen\<close> returns as a
  response, \<^verbatim>\<open>setup_tunnel\<close> raises nothing and returns \<^verbatim>\<open>None\<close>: neither a payload nor an
  error.
\<close>

theorem setup_tunnel_status_204_returns_None:
  "setup_tunnel (\<lambda>url headers timeout. Inr \<lparr>resp_code = 204, resp_read = ''''\<rparr>)
     read_payload create_tunnel port = Inr None"
  by (simp add: setup_tunnel_def url_request_def)

section \<open>Properties of the path translation\<close>

lemma split_on_not_Nil [simp]: "split_on sep s \<noteq> []"
  by (induction s) (auto split: list.splits)

lemma split_on_append: "split_on sep (a @ sep # b) = split_on sep a @ split_on sep b"
proof (induction a)
  case Nil
  then show ?case by simp
next
  case (Cons c a)
  then show ?case by (cases "split_on sep a") (auto split: list.splits)
qed

lemma split_on_no_sep: "w \<in> set (split_on sep s) \<Longrightarrow> sep \<notin> set w"
proof (induction s arbitrary: w)
  case Nil
  then show ?case by simp
next
  case (Cons c s)
  show ?case
  proof (cases "c = sep")
    case True
    with Cons show ?thesis by auto
  next
    case False
    obtain v vs where vs: "split_on sep s = v # vs" by (cases "split_on sep s") auto
    with False Cons.prems have "w = c # v \<or> w \<in> set vs" by simp
    then show ?thesis
    proof
      assume "w = c # v"
      moreover from Cons.IH[of v] vs have "sep \<notin> set v" by simp
      ultimately show ?thesis using False by auto
    next
      assume "w \<in> set vs"
      with Cons.IH[of w] vs show ?thesis by simp
    qed
  qed
qed

lemma split_on_single: "sep \<notin> set w \<Longrightarrow> split_on sep w = [w]"
  by (induction w) auto

lemma components_Nil [simp]: "components [] = []"
  by (simp add: components_def)

lemma components_slash [simp]: "components (CHR ''/'' # s) = components s"
  by (simp add: components_def)

lemma components_append: "components (a @ CHR ''/'' # b) = components a @ components b"
  by (simp add: components_def split_on_append)

lemma components_word: "w \<noteq> [] \<Longrightarrow> CHR ''/'' \<notin> set w \<Longrightarrow> components w = [w]"
  by (simp add: components_def split_on_single)

lemma components_names: "w \<in> set (components p) \<Longrightarrow> w \<noteq> [] \<and> CHR ''/'' \<notin> set w"
  by (auto simp: components_def dest: split_on_no_sep)

lemma components_trailing: "components (r @ ''/'') = components r"
  using components_append[of r "[]"] by simp

lemma components_path_join:
  assumes "\<not> prefix ''/'' b"
  shows "components (path_join a b) = components a @ components b"
proof (cases "a = [] \<or> last a = CHR ''/''")
  case False
  with assms have "path_join a b = a @ CHR ''/'' # b"
    by (cases b) (auto simp: path_join_def)
  then show ?thesis by (simp add: components_append)
next
  case True
  show ?thesis
  proof (cases "a = []")
    case True
    with assms show ?thesis by (cases b) (auto simp: path_join_def)
  next
    case False
    with True have "a = butlast a @ ''/''" by (metis append_butlast_last_id)
    then obtain a' where a': "a = a' @ ''/''" ..
    with assms have "path_join a b = a' @ CHR ''/'' # b"
      by (cases b) (auto simp: path_join_def)
    then have "components (path_join a b) = components a' @ components b"
      by (simp add: components_append)
    moreover from a' have "components a = components a'"
      by (simp add: components_trailing)
    ultimately show ?thesis by simp
  qed
qed

lemma dirname_word: "CHR ''/'' \<notin> set w \<Longrightarrow> dirname w = []"
proof -
  assume "CHR ''/'' \<notin> set w"
  then have "dropWhile (\<lambda>c. c \<noteq> CHR ''/'') (rev w) = []" by auto
  then show ?thesis by (simp add: dirname_def)
qed

lemma path_join_absolute:
  "prefix ''/'' a \<Longrightarrow> \<not> prefix ''/'' b \<Longrightarrow> prefix ''/'' (path_join a b)"
  by (cases a; cases b) (auto simp: path_join_def)


subsection \<open>The loop of the base class\<close>

lemma base_loop:
  assumes "\<forall>w \<in> set ws. w \<noteq> [] \<and> CHR ''/'' \<notin> set w"
  shows "components (foldl (\<lambda>p word.
                   if dirname word \<noteq> [] \<or> word = ''.'' \<or> word = ''..'' then p
                   else path_join p word) a ws)
           = components a @ filter (\<lambda>w. w \<noteq> ''.'' \<and> w \<noteq> ''..'') ws \<and>
         (prefix ''/'' a \<longrightarrow> prefix ''/'' (foldl (\<lambda>p word.
                   if dirname word \<noteq> [] \<or> word = ''.'' \<or> word = ''..'' then p
                   else path_join p word) a ws))"
  using assms
proof (induction ws arbitrary: a)
  case Nil
  then show ?case by simp
next
  case (Cons w ws)
  then have w: "w \<noteq> []" "CHR ''/'' \<notin> set w" and rest: "\<forall>w \<in> set ws. w \<noteq> [] \<and> CHR ''/'' \<notin> set w"
    by auto
  from w have np: "\<not> prefix ''/'' w" by (cases w) auto
  show ?case
  proof (cases "w = ''.'' \<or> w = ''..''")
    case True
    with Cons.IH[OF rest, of a] show ?thesis by auto
  next
    case False
    from components_path_join[OF np, of a] components_word[OF w]
    have c: "components (path_join a w) = components a @ [w]" by simp
    from Cons.IH[OF rest, of "path_join a w"] c False dirname_word[OF w(2)]
      path_join_absolute[OF _ np, of a]
    show ?thesis by auto
  qed
qed

subsection \<open>Normalisation\<close>

lemma normpath_loop_filter:
  "normpath_loop b (filter (\<lambda>x. x \<noteq> []) xs) acc = normpath_loop b xs acc"
  by (induction b xs acc rule: normpath_loop.induct) auto

lemma normpath_loop_append:
  "normpath_loop b (xs @ ys) acc = normpath_loop b ys (normpath_loop b xs acc)"
  by (induction b xs acc rule: normpath_loop.induct) auto

lemma normpath_loop_simple:
  "\<forall>w \<in> set ws. w \<noteq> [] \<and> w \<noteq> ''.'' \<and> w \<noteq> ''..'' \<Longrightarrow> normpath_loop b ws acc = acc @ ws"
  by (induction ws arbitrary: acc) auto

lemma normpath_loop_names:
  "w \<in> set (normpath_loop b xs acc) \<Longrightarrow> w \<in> set acc \<or> (w \<in> set xs \<and> w \<noteq> [])"
proof (induction b xs acc rule: normpath_loop.induct)
  case (1 b acc)
  then show ?case by simp
next
  case (2 b x xs acc)
  then show ?case
    by (auto split: if_splits dest: in_set_butlastD)
qed

lemma components_join_with:
  "\<forall>w \<in> set ws. w \<noteq> [] \<and> CHR ''/'' \<notin> set w \<Longrightarrow> components (join_with ''/'' ws) = ws"
proof (induction ws)
  case Nil
  then show ?case by simp
next
  case (Cons w ws)
  show ?case
  proof (cases ws)
    case Nil
    with Cons.prems show ?thesis by (simp add: components_word)
  next
    case (Cons v vs)
    with Cons.IH Cons.prems have "components (join_with ''/'' (v # vs)) = v # vs" by simp
    moreover have "join_with ''/'' (w # v # vs) = w @ CHR ''/'' # join_with ''/'' (v # vs)" by simp
    ultimately show ?thesis
      using Cons.prems Cons by (simp only: components_append) (simp add: components_word)
  qed
qed

lemma components_slashes:
  "components (replicate n CHR ''/'' @ s) = components s"
  by (induction n) auto

lemma components_normpath:
  assumes "prefix ''/'' p"
  shows "components (normpath p) = normpath_loop True (components p) []"
proof -
  from assms have ne: "p \<noteq> []" by auto
  define n :: nat where "n = (if prefix ''//'' p \<and> \<not> prefix ''///'' p then 2 else 1)"
  define cs where "cs = normpath_loop True (split_on CHR ''/'' p) []"
  have n: "n \<noteq> 0" by (simp add: n_def)
  then have "replicate n CHR ''/'' @ join_with ''/'' cs \<noteq> []" by (cases n) auto
  with assms ne n have np: "normpath p = replicate n CHR ''/'' @ join_with ''/'' cs"
    unfolding normpath_def n_def cs_def Let_def by auto
  have "\<forall>w \<in> set cs. w \<noteq> [] \<and> CHR ''/'' \<notin> set w"
  proof
    fix w assume "w \<in> set cs"
    then have "w \<in> set (split_on CHR ''/'' p) \<and> w \<noteq> []"
      unfolding cs_def using normpath_loop_names[of w True "split_on CHR ''/'' p" "[]"] by simp
    then show "w \<noteq> [] \<and> CHR ''/'' \<notin> set w" by (auto dest: split_on_no_sep)
  qed
  then have "components (normpath p) = cs"
    unfolding np by (simp add: components_slashes components_join_with)
  then show ?thesis by (simp add: cs_def components_def normpath_loop_filter)
qed


subsection \<open>The relative path\<close>

lemma commonprefix_append: "commonprefix xs (xs @ ys) = xs"
  by (induction xs) auto

lemma foldl_path_join:
  "a \<noteq> [] \<Longrightarrow> last a \<noteq> CHR ''/'' \<Longrightarrow> \<forall>w \<in> set ws. w \<noteq> [] \<and> CHR ''/'' \<notin> set w \<Longrightarrow>
     foldl path_join a ws = a @ concat (map (\<lambda>w. CHR ''/'' # w) ws)"
proof (induction ws arbitrary: a)
  case Nil
  then show ?case by simp
next
  case (Cons w ws)
  then have w: "w \<noteq> []" "CHR ''/'' \<notin> set w" by auto
  then have "hd w \<noteq> CHR ''/''" "last w \<noteq> CHR ''/''"
    by (metis hd_in_set, metis last_in_set)
  with Cons.prems w have j: "path_join a w = a @ CHR ''/'' # w" "last (a @ CHR ''/'' # w) \<noteq> CHR ''/''"
    by (auto simp: path_join_def)
  from Cons.prems have "\<forall>w \<in> set ws. w \<noteq> [] \<and> CHR ''/'' \<notin> set w" by simp
  from Cons.IH[OF _ j(2) this] j(1) show ?case by simp
qed

lemma join_with_concat:
  "join_with ''/'' (w # ws) = w @ concat (map (\<lambda>w. CHR ''/'' # w) ws)"
  by (induction ws arbitrary: w) auto

lemma join_all:
  assumes "ws \<noteq> []" "\<forall>w \<in> set ws. w \<noteq> [] \<and> CHR ''/'' \<notin> set w"
  shows "foldl path_join (hd ws) (tl ws) = join_with ''/'' ws"
proof -
  from assms(1) obtain w vs where ws: "ws = w # vs" by (cases ws) auto
  with assms(2) have w: "w \<noteq> []" "CHR ''/'' \<notin> set w" "\<forall>w \<in> set vs. w \<noteq> [] \<and> CHR ''/'' \<notin> set w"
    by auto
  then have "last w \<noteq> CHR ''/''" by (metis last_in_set)
  from foldl_path_join[OF w(1) this w(3)] ws show ?thesis
    by (simp add: join_with_concat)
qed

lemma relpath_below:
  assumes cwd: "prefix ''/'' cwd" and p: "prefix ''/'' p"
    and comps: "components p = components cwd @ ws"
    and ws: "\<forall>w \<in> set ws. simple_name w"
  shows "relpath cwd p cwd = Inr (if ws = [] then ''.'' else join_with ''/'' ws)"
proof -
  let ?start = "normpath_loop True (components cwd) []"
  have s: "components (abspath cwd cwd) = ?start"
    using cwd by (simp add: abspath_def components_normpath)
  from ws have simple: "\<forall>w \<in> set ws. w \<noteq> [] \<and> w \<noteq> ''.'' \<and> w \<noteq> ''..''"
    and names: "\<forall>w \<in> set ws. w \<noteq> [] \<and> CHR ''/'' \<notin> set w"
    by (auto simp: simple_name_def)
  have "components (abspath cwd p) = normpath_loop True (components cwd @ ws) []"
    using p comps by (simp add: abspath_def components_normpath)
  also have "\<dots> = ?start @ ws"
    by (simp add: normpath_loop_append normpath_loop_simple[OF simple])
  finally have pl: "components (abspath cwd p) = ?start @ ws" .
  from p have "p \<noteq> []" by auto
  then have "relpath cwd p cwd =
      (if ws = [] then Inr ''.'' else Inr (foldl path_join (hd ws) (tl ws)))"
    using s pl
    by (simp add: relpath_def components_def[symmetric] commonprefix_append Let_def)
  then show ?thesis using join_all[OF _ names] by auto
qed

text \<open>
  C8: with an absolute current directory and a serve directory \<open>base\<close>, every request
  path is translated to \<open>base\<close>, a slash when \<open>base\<close> does not end with one, and a
  relative path that is \<open>.\<close> or simple names joined by slashes: no component of it is
  \<open>..\<close>, so the translated path does not leave the serve directory.
\<close>

theorem translate_path_inside_serve_directory:
  assumes cwd: "prefix ''/'' cwd"
  shows "\<exists>ws rel.
           translate_path unquote isspace cwd (Some base) request_path =
             Inr ((if base = [] \<or> last base = CHR ''/'' then base else base @ ''/'') @ rel) \<and>
           rel = (if ws = [] then ''.'' else join_with ''/'' ws) \<and>
           (\<forall>w \<in> set ws. simple_name w)"
proof -
  define q where "q = normpath (unquote (takeWhile (\<lambda>c. c \<noteq> CHR ''#'')
                        (takeWhile (\<lambda>c. c \<noteq> CHR ''?'') request_path)))"
  define words where "words = filter (\<lambda>w. w \<noteq> []) (split_on CHR ''/'' q)"
  define r where "r = foldl (\<lambda>p word.
                   if dirname word \<noteq> [] \<or> word = ''.'' \<or> word = ''..'' then p
                   else path_join p word) cwd words"
  define ws where "ws = filter (\<lambda>w. w \<noteq> ''.'' \<and> w \<noteq> ''..'') words"
  have words: "\<forall>w \<in> set words. w \<noteq> [] \<and> CHR ''/'' \<notin> set w"
    unfolding words_def by (auto dest: split_on_no_sep)
  from base_loop[OF words, of cwd] cwd
  have r: "components r = components cwd @ ws" "prefix ''/'' r"
    by (simp_all add: r_def ws_def)
  have ws: "\<forall>w \<in> set ws. simple_name w"
    using words by (auto simp: ws_def simple_name_def)
  have base: "base_translate_path unquote isspace cwd request_path = r \<or>
              base_translate_path unquote isspace cwd request_path = r @ ''/''"
    by (simp add: base_translate_path_def Let_def q_def words_def r_def)
  define p where "p = base_translate_path unquote isspace cwd request_path"
  from base r have "components p = components cwd @ ws" "prefix ''/'' p"
    unfolding p_def by (auto simp: components_trailing)
  from relpath_below[OF cwd this(2) this(1) ws]
  have rel: "relpath cwd p cwd = Inr (if ws = [] then ''.'' else join_with ''/'' ws)" .
  have nopre: "\<not> prefix ''/'' (if ws = [] then ''.'' else join_with ''/'' ws)"
  proof (cases ws)
    case Nil
    then show ?thesis by simp
  next
    case (Cons w vs)
    with ws have "w \<noteq> []" "CHR ''/'' \<notin> set w" by (auto simp: simple_name_def)
    then have "hd w \<noteq> CHR ''/''" by (metis hd_in_set)
    with Cons \<open>w \<noteq> []\<close> show ?thesis by (cases w) (auto simp: join_with_concat)
  qed
  then have "path_join base (if ws = [] then ''.'' else join_with ''/'' ws) =
               (if base = [] \<or> last base = CHR ''/'' then base else base @ ''/'') @
               (if ws = [] then ''.'' else join_with ''/'' ws)"
    by (cases "if ws = [] then ''.'' else join_with ''/'' ws") (auto simp: path_join_def)
  with rel have "translate_path unquote isspace cwd (Some base) request_path =
             Inr ((if base = [] \<or> last base = CHR ''/'' then base else base @ ''/'') @
                  (if ws = [] then ''.'' else join_with ''/'' ws))"
    by (simp add: translate_path_def p_def[symmetric])
  with ws show ?thesis by blast
qed

theorem translate_path_inside_serve_directory_witness:
  "(\<exists>ws rel.
      translate_path (\<lambda>s. s) (\<lambda>c. c = CHR '' '') ''/home/user'' (Some ''/tmp/serve'')
        ''/../../etc/passwd?x=1'' = Inr (''/tmp/serve/'' @ rel) \<and>
      rel = (if ws = [] then ''.'' else join_with ''/'' ws) \<and>
      (\<forall>w \<in> set ws. simple_name w)) \<and>
   translate_path (\<lambda>s. s) (\<lambda>c. c = CHR '' '') ''/home/user'' (Some ''/tmp/serve'')
     ''/../../etc/passwd?x=1'' = Inr ''/tmp/serve/etc/passwd''"
proof -
  have h: "prefix ''/'' ''/home/user''" by simp
  have "translate_path (\<lambda>s. s) (\<lambda>c. c = CHR '' '') ''/home/user'' (Some ''/tmp/serve'')
     ''/../../etc/passwd?x=1'' = Inr ''/tmp/serve/etc/passwd''"
    by code_simp
  with translate_path_inside_serve_directory[OF h, of "\<lambda>s. s" "\<lambda>c. c = CHR '' ''"
      "''/tmp/serve''" "''/../../etc/passwd?x=1''"]
  show ?thesis by simp
qed

end
